theory Spec2Isabelle
  imports Main "HOL-Library.Word" "HOL-Library.List_Lexorder"
begin

section \<open>Values of the host language\<close>

text \<open>
  A JavaScript string is a sequence of 16-bit code units; a \<open>Uint8Array\<close> or
  \<open>ArrayBuffer\<close> is a sequence of bytes. Strings are compared by code units, which is
  also the order IndexedDB puts on string keys.
\<close>

type_synonym byte = "8 word"
type_synonym jschar = "16 word"
type_synonym jsstring = "jschar list"

definition js :: "string \<Rightarrow> jsstring" where
  "js s = map (\<lambda>c. of_nat (of_char c)) s"

text \<open>
  Template literals print an integral number in decimal (\<open>`${Date.now()}`\<close>,
  \<open>`${investigations.length}`\<close>).
\<close>

fun show_nat :: "nat \<Rightarrow> jsstring" where
  "show_nat n =
     (if n < 10 then [of_nat (48 + n)]
      else show_nat (n div 10) @ [of_nat (48 + n mod 10)])"

declare show_nat.simps [simp del]

definition show_int :: "int \<Rightarrow> jsstring" where
  "show_int i = (if i < 0 then js ''-'' @ show_nat (nat (- i)) else show_nat (nat i))"

text \<open>
  \<open>Array.prototype.slice(0, end)\<close> for an integral \<open>end\<close>: a negative \<open>end\<close> counts
  from the end of the array.
\<close>

definition slice0 :: "'a list \<Rightarrow> int \<Rightarrow> 'a list" where
  "slice0 xs end =
     (let len = int (length xs);
          final = (if end < 0 then max (len + end) 0 else min end len)
      in take (nat final) xs)"

section \<open>services/dbService\<close>

text \<open>Every \<open>new Error(...)\<close> and every exception of a host call the code can meet.\<close>

datatype error =
    DATABASE_INIT_FAILURE
  | FETCH_FAILURE
  | ACCESS_DENIED
  | IDENTITY_VERIFICATION_FAILED
  | PROVISIONING_ERROR
  | InvalidCharacterError
  | OperationError
  | TypeError

record AuditEntry =
  log_id :: jsstring
  log_operatorId :: jsstring
  action :: jsstring
  details :: jsstring
  timestamp :: int

record UserProfile =
  user_id :: jsstring
  passwordHash :: jsstring
  salt :: jsstring
  iterations :: nat

text \<open>
  What \<open>saveInvestigation\<close> stores: the fields of the \<open>AnalysisState\<close> (its \<open>id\<close> is the
  key path; the others are kept as \<open>analysis\<close>), the owner and the time of the write.
\<close>

record 'p Investigation =
  inv_id :: jsstring
  inv_operatorId :: jsstring
  inv_timestamp :: int
  analysis :: 'p

text \<open>
  The service holds the connection \<open>this.db\<close> (\<open>db\<close> is true once it is not null) to the
  database \<open>SentinelForensicDB\<close>, whose three object stores outlive the connection. An
  object store is the list of its records; the key path \<open>id\<close> is the primary key.
\<close>

record 'p DatabaseService =
  db :: bool
  users :: "UserProfile list"
  investigations :: "'p Investigation list"
  logs :: "AuditEntry list"

text \<open>
  What the host decides during one call: whether \<open>indexedDB.open\<close> succeeds, whether
  the read request of \<open>getInvestigations\<close> succeeds, the clock readings, the random
  suffix \<open>Math.random().toString(36).substr(2, 5)\<close> and the bytes of
  \<open>crypto.getRandomValues(new Uint8Array(16))\<close>. The two failures are the ones the
  code listens for (\<open>request.onerror\<close>); the other requests and transactions, which
  have no error handler, are taken to succeed.
\<close>

record env =
  open_ok :: bool
  fetch_ok :: bool
  now_id :: int
  random_suffix :: jsstring
  now_ts :: int
  now_session :: int
  random_salt :: "byte list"

subsection \<open>Object stores\<close>

definition idb_get :: "('r \<Rightarrow> jsstring) \<Rightarrow> jsstring \<Rightarrow> 'r list \<Rightarrow> 'r option" where
  "idb_get key k rs = find (\<lambda>r. key r = k) rs"

definition idb_put :: "('r \<Rightarrow> jsstring) \<Rightarrow> 'r \<Rightarrow> 'r list \<Rightarrow> 'r list" where
  "idb_put key r rs = filter (\<lambda>x. key x \<noteq> key r) rs @ [r]"

text \<open>
  \<open>add\<close> on a key that is present fails with a \<open>ConstraintError\<close> on the request; no
  caller listens, the transaction aborts and the store is left as it was.
\<close>

definition idb_add :: "('r \<Rightarrow> jsstring) \<Rightarrow> 'r \<Rightarrow> 'r list \<Rightarrow> 'r list" where
  "idb_add key r rs = (if key r \<in> set (map key rs) then rs else rs @ [r])"

definition idb_delete :: "('r \<Rightarrow> jsstring) \<Rightarrow> jsstring \<Rightarrow> 'r list \<Rightarrow> 'r list" where
  "idb_delete key k rs = filter (\<lambda>x. key x \<noteq> k) rs"

text \<open>
  \<open>index.getAll(v)\<close>: the records whose indexed field is \<open>v\<close>, in ascending order of
  their primary keys.
\<close>

definition idb_index_getAll ::
  "('r \<Rightarrow> jsstring) \<Rightarrow> ('r \<Rightarrow> jsstring) \<Rightarrow> jsstring \<Rightarrow> 'r list \<Rightarrow> 'r list" where
  "idb_index_getAll key idx v rs = sort_key key (filter (\<lambda>x. idx x = v) rs)"

subsection \<open>DatabaseService\<close>

definition init :: "env \<Rightarrow> 'p DatabaseService \<Rightarrow> (error + unit) \<times> 'p DatabaseService" where
  "init e s =
     (if db s then (Inr (), s)
      else if open_ok e then (Inr (), s\<lparr>db := True\<rparr>)
      else (Inl DATABASE_INIT_FAILURE, s))"

text \<open>
  The object \<open>log\<close> that \<open>logAction\<close> builds, with its
  \<open>id: `LOG-${Date.now()}-${Math.random().toString(36).substr(2, 5)}`\<close>.
\<close>

definition new_log_id :: "env \<Rightarrow> jsstring" where
  "new_log_id e = js ''LOG-'' @ show_int (now_id e) @ js ''-'' @ random_suffix e"

definition new_log :: "env \<Rightarrow> jsstring \<Rightarrow> jsstring \<Rightarrow> jsstring \<Rightarrow> AuditEntry" where
  "new_log e operatorId act det =
     \<lparr>log_id = new_log_id e,
      log_operatorId = operatorId,
      action = act,
      details = det,
      timestamp = now_ts e\<rparr>"

definition logAction ::
  "env \<Rightarrow> jsstring \<Rightarrow> jsstring \<Rightarrow> jsstring \<Rightarrow> 'p DatabaseService
    \<Rightarrow> (error + unit) \<times> 'p DatabaseService" where
  "logAction e operatorId act det s =
     (case init e s of
        (Inl err, s1) \<Rightarrow> (Inl err, s1)
      | (Inr _, s1) \<Rightarrow>
          let log = new_log e operatorId act det
          in (Inr (), s1\<lparr>logs := idb_add log_id log (logs s1)\<rparr>))"

text \<open>
  \<open>sort((a, b) => b.timestamp - a.timestamp)\<close> is a stable sort by descending timestamp;
  \<open>limit\<close> is \<open>None\<close> when the caller leaves it out.
\<close>

definition getRecentLogs ::
  "env \<Rightarrow> jsstring \<Rightarrow> int option \<Rightarrow> 'p DatabaseService
    \<Rightarrow> (error + AuditEntry list) \<times> 'p DatabaseService" where
  "getRecentLogs e operatorId limit s =
     (case init e s of
        (Inl err, s1) \<Rightarrow> (Inl err, s1)
      | (Inr _, s1) \<Rightarrow>
          let lim = (case limit of None \<Rightarrow> 20 | Some l \<Rightarrow> l);
              sorted = sort_key (\<lambda>a. - timestamp a)
                         (idb_index_getAll log_id log_operatorId operatorId (logs s1))
          in (Inr (slice0 sorted lim), s1))"

definition getInvestigations ::
  "env \<Rightarrow> jsstring \<Rightarrow> 'p DatabaseService
    \<Rightarrow> (error + 'p Investigation list) \<times> 'p DatabaseService" where
  "getInvestigations e operatorId s =
     (case init e s of
        (Inl err, s1) \<Rightarrow> (Inl err, s1)
      | (Inr _, s1) \<Rightarrow>
          if fetch_ok e
          then (Inr (idb_index_getAll inv_id inv_operatorId operatorId (investigations s1)), s1)
          else (Inl FETCH_FAILURE, s1))"

text \<open>
  The promise of \<open>logAction\<close> is not awaited, so its outcome is dropped. Its write is
  queued behind the deleting transaction, and every later transaction on \<open>logs\<close> is
  queued behind it: a later read sees the entry.
\<close>

definition clearOperatorInvestigations ::
  "env \<Rightarrow> jsstring \<Rightarrow> 'p DatabaseService \<Rightarrow> (error + unit) \<times> 'p DatabaseService" where
  "clearOperatorInvestigations e operatorId s =
     (case init e s of
        (Inl err, s1) \<Rightarrow> (Inl err, s1)
      | (Inr _, s1) \<Rightarrow>
          (case getInvestigations e operatorId s1 of
             (Inl err, s2) \<Rightarrow> (Inl err, s2)
           | (Inr invs, s2) \<Rightarrow>
               let s3 = s2\<lparr>investigations :=
                           fold (\<lambda>inv. idb_delete inv_id (inv_id inv)) invs (investigations s2)\<rparr>;
                   s4 = snd (logAction e operatorId (js ''BATCH_PURGE'')
                               (js ''Deleted '' @ show_nat (length invs) @ js '' records.'') s3)
               in (Inr (), s4)))"

definition saveUser ::
  "env \<Rightarrow> UserProfile \<Rightarrow> 'p DatabaseService \<Rightarrow> (error + unit) \<times> 'p DatabaseService" where
  "saveUser e profile s =
     (case init e s of
        (Inl err, s1) \<Rightarrow> (Inl err, s1)
      | (Inr _, s1) \<Rightarrow> (Inr (), s1\<lparr>users := idb_put user_id profile (users s1)\<rparr>))"

definition getUser ::
  "env \<Rightarrow> jsstring \<Rightarrow> 'p DatabaseService
    \<Rightarrow> (error + UserProfile option) \<times> 'p DatabaseService" where
  "getUser e k s =
     (case init e s of
        (Inl err, s1) \<Rightarrow> (Inl err, s1)
      | (Inr _, s1) \<Rightarrow> (Inr (idb_get user_id k (users s1)), s1))"

section \<open>contexts/AuthContext\<close>

subsection \<open>Host functions\<close>

text \<open>
  \<open>btoa\<close> and \<open>atob\<close> are the forgiving-base64 encode and decode of the HTML
  standard. Encoding cuts the bytes into 6-bit groups, writes each with the base64
  alphabet and pads with \<open>=\<close> (61) to a multiple of four characters. Decoding drops ASCII
  whitespace, drops one or two trailing \<open>=\<close> when the length is a multiple of four,
  refuses a length of 1 modulo 4 and any character outside the alphabet, and puts the
  6-bit groups back together, dropping the bits of an incomplete last byte.
\<close>

definition b64_char :: "nat \<Rightarrow> jschar" where
  "b64_char n =
     (if n < 26 then of_nat (65 + n)
      else if n < 52 then of_nat (71 + n)
      else if n < 62 then of_nat (n - 4)
      else if n = 62 then 43
      else 47)"

definition b64_index :: "jschar \<Rightarrow> nat option" where
  "b64_index c =
     (if 65 \<le> c \<and> c \<le> 90 then Some (unat c - 65)
      else if 97 \<le> c \<and> c \<le> 122 then Some (unat c - 71)
      else if 48 \<le> c \<and> c \<le> 57 then Some (unat c + 4)
      else if c = 43 then Some 62
      else if c = 47 then Some 63
      else None)"

fun b64_sextets :: "byte list \<Rightarrow> nat list" where
  "b64_sextets (a # b # c # rest) =
     [unat a div 4,
      unat a mod 4 * 16 + unat b div 16,
      unat b mod 16 * 4 + unat c div 64,
      unat c mod 64] @ b64_sextets rest"
| "b64_sextets [a, b] =
     [unat a div 4, unat a mod 4 * 16 + unat b div 16, unat b mod 16 * 4]"
| "b64_sextets [a] = [unat a div 4, unat a mod 4 * 16]"
| "b64_sextets [] = []"

definition b64_padding :: "byte list \<Rightarrow> nat" where
  "b64_padding bs = (3 - length bs mod 3) mod 3"

definition b64_encode :: "byte list \<Rightarrow> jsstring" where
  "b64_encode bs = map b64_char (b64_sextets bs) @ replicate (b64_padding bs) 61"

fun b64_octets :: "nat list \<Rightarrow> byte list" where
  "b64_octets (p # q # r # s # rest) =
     [of_nat (p * 4 + q div 16), of_nat (q mod 16 * 16 + r div 4), of_nat (r mod 4 * 64 + s)]
       @ b64_octets rest"
| "b64_octets [p, q, r] = [of_nat (p * 4 + q div 16), of_nat (q mod 16 * 16 + r div 4)]"
| "b64_octets [p, q] = [of_nat (p * 4 + q div 16)]"
| "b64_octets [p] = []"
| "b64_octets [] = []"

definition ascii_whitespace :: "jschar \<Rightarrow> bool" where
  "ascii_whitespace c = (c = 9 \<or> c = 10 \<or> c = 12 \<or> c = 13 \<or> c = 32)"

definition strip_padding :: "jsstring \<Rightarrow> jsstring" where
  "strip_padding d =
     (if length d mod 4 = 0 then
        (if 2 \<le> length d \<and> last d = 61 \<and> last (butlast d) = 61 then butlast (butlast d)
         else if d \<noteq> [] \<and> last d = 61 then butlast d
         else d)
      else d)"

text \<open>\<open>btoa\<close> throws on a code unit above 255; \<open>atob\<close> returns one code unit per byte.\<close>

definition btoa :: "jsstring \<Rightarrow> error + jsstring" where
  "btoa s =
     (if list_all (\<lambda>c. c \<le> 255) s then Inr (b64_encode (map ucast s))
      else Inl InvalidCharacterError)"

definition atob :: "jsstring \<Rightarrow> error + jsstring" where
  "atob s =
     (let d = strip_padding (filter (\<lambda>c. \<not> ascii_whitespace c) s)
      in if length d mod 4 = 1 then Inl InvalidCharacterError
         else (case those (map b64_index d) of
                 None \<Rightarrow> Inl InvalidCharacterError
               | Some ss \<Rightarrow> Inr (map ucast (b64_octets ss))))"

text \<open>
  \<open>new TextEncoder().encode(s)\<close>: the UTF-8 bytes of the code points of \<open>s\<close>. A
  surrogate pair is one code point; a surrogate without its partner is replaced by
  U+FFFD (65533).
\<close>

fun code_points :: "jsstring \<Rightarrow> nat list" where
  "code_points (u # v # rest) =
     (if 55296 \<le> u \<and> u \<le> 56319 \<and> 56320 \<le> v \<and> v \<le> 57343
      then (65536 + (unat u - 55296) * 1024 + (unat v - 56320)) # code_points rest
      else (if 55296 \<le> u \<and> u \<le> 57343 then 65533 else unat u) # code_points (v # rest))"
| "code_points [u] = [if 55296 \<le> u \<and> u \<le> 57343 then 65533 else unat u]"
| "code_points [] = []"

definition utf8_bytes :: "nat \<Rightarrow> byte list" where
  "utf8_bytes cp =
     (if cp < 128 then [of_nat cp]
      else if cp < 2048 then [of_nat (192 + cp div 64), of_nat (128 + cp mod 64)]
      else if cp < 65536 then
        [of_nat (224 + cp div 4096), of_nat (128 + cp div 64 mod 64), of_nat (128 + cp mod 64)]
      else
        [of_nat (240 + cp div 262144), of_nat (128 + cp div 4096 mod 64),
         of_nat (128 + cp div 64 mod 64), of_nat (128 + cp mod 64)])"

definition TextEncoder_encode :: "jsstring \<Rightarrow> byte list" where
  "TextEncoder_encode s = concat (map utf8_bytes (code_points s))"

text \<open>
  Two functions of the host are taken as they are: \<open>String.prototype.toUpperCase\<close>, and
  \<open>crypto.subtle.deriveBits\<close> for PBKDF2 with SHA-256 and 256 bits of output, as a
  function of the password bytes, the salt and the iteration count.
\<close>

record host =
  toUpperCase :: "jsstring \<Rightarrow> jsstring"
  pbkdf2_sha256 :: "byte list \<Rightarrow> byte list \<Rightarrow> nat \<Rightarrow> byte list"

subsection \<open>AuthProvider\<close>

text \<open>
  The state of the provider, the item of \<open>localStorage\<close> under \<open>SESSION_KEY\<close> (the
  object that \<open>JSON.parse\<close> gives back from what \<open>JSON.stringify\<close> wrote) and the
  database service.
\<close>

record AuthState =
  isAuthenticated :: bool
  operatorId :: "jsstring option"
  error :: "error option"

record SessionMarker =
  session_id :: jsstring
  expiry :: int

record 'p world =
  auth :: AuthState
  localStorage :: "SessionMarker option"
  dbService :: "'p DatabaseService"

definition PBKDF2_ITERATIONS :: nat where
  "PBKDF2_ITERATIONS = 100000"

definition initialAuth :: AuthState where
  "initialAuth = \<lparr>isAuthenticated = False, operatorId = None, error = None\<rparr>"

text \<open>The effect that runs once when the provider mounts.\<close>

definition restoreSession :: "int \<Rightarrow> 'p world \<Rightarrow> 'p world" where
  "restoreSession now w =
     (case localStorage w of
        None \<Rightarrow> w
      | Some savedSession \<Rightarrow>
          if now < expiry savedSession
          then w\<lparr>auth := (auth w)\<lparr>isAuthenticated := True,
                                    operatorId := Some (session_id savedSession)\<rparr>\<rparr>
          else w\<lparr>localStorage := None\<rparr>)"

definition arrayBufferToBase64 :: "byte list \<Rightarrow> error + jsstring" where
  "arrayBufferToBase64 buffer = btoa (map ucast buffer)"

definition base64ToArrayBuffer :: "jsstring \<Rightarrow> error + byte list" where
  "base64ToArrayBuffer base64 =
     (case atob base64 of
        Inl err \<Rightarrow> Inl err
      | Inr binary \<Rightarrow> Inr (map ucast binary))"

text \<open>
  \<open>deriveBits\<close> refuses an iteration count that is not an \<open>unsigned long\<close> with a
  \<open>TypeError\<close> and a count of zero with an \<open>OperationError\<close>.
\<close>

definition deriveHash :: "host \<Rightarrow> jsstring \<Rightarrow> byte list \<Rightarrow> nat \<Rightarrow> error + jsstring" where
  "deriveHash h password saltBuffer iters =
     (if 2 ^ 32 \<le> iters then Inl TypeError
      else if iters = 0 then Inl OperationError
      else arrayBufferToBase64
             (pbkdf2_sha256 h (TextEncoder_encode password) saltBuffer iters))"

text \<open>
  The session marker that \<open>login\<close> and \<open>register\<close> write: it expires 24 hours after
  \<open>Date.now()\<close>.
\<close>

definition new_session :: "env \<Rightarrow> jsstring \<Rightarrow> SessionMarker" where
  "new_session e normalizedId =
     \<lparr>session_id = normalizedId, expiry = now_session e + 1000 * 60 * 60 * 24\<rparr>"

text \<open>\<open>catch (e) { setError(e.message); throw e; }\<close>\<close>

definition catch_setError :: "(error + unit) \<times> 'p world \<Rightarrow> (error + unit) \<times> 'p world" where
  "catch_setError r =
     (case r of
        (Inl err, w) \<Rightarrow> (Inl err, w\<lparr>auth := (auth w)\<lparr>error := Some err\<rparr>\<rparr>)
      | (Inr u, w) \<Rightarrow> (Inr u, w))"

text \<open>
  The body of the \<open>try\<close> block of \<open>login\<close>. The progress messages of \<open>onStep\<close> and the
  two \<open>setTimeout\<close> delays change no state and are left out.
\<close>

definition login_try ::
  "host \<Rightarrow> env \<Rightarrow> jsstring \<Rightarrow> jsstring \<Rightarrow> 'p world \<Rightarrow> (error + unit) \<times> 'p world" where
  "login_try h e normalizedId passkey w =
     (case getUser e normalizedId (dbService w) of
        (Inl err, d1) \<Rightarrow> (Inl err, w\<lparr>dbService := d1\<rparr>)
      | (Inr None, d1) \<Rightarrow> (Inl ACCESS_DENIED, w\<lparr>dbService := d1\<rparr>)
      | (Inr (Some user), d1) \<Rightarrow>
          (case base64ToArrayBuffer (salt user) of
             Inl err \<Rightarrow> (Inl err, w\<lparr>dbService := d1\<rparr>)
           | Inr saltBuffer \<Rightarrow>
               (case deriveHash h passkey saltBuffer (iterations user) of
                  Inl err \<Rightarrow> (Inl err, w\<lparr>dbService := d1\<rparr>)
                | Inr hashedInput \<Rightarrow>
                    if passwordHash user = hashedInput
                    then
                      (let w1 = w\<lparr>auth := (auth w)\<lparr>isAuthenticated := True,
                                                     operatorId := Some normalizedId\<rparr>,
                                   localStorage := Some (new_session e normalizedId)\<rparr>
                       in case logAction e normalizedId (js ''LOGIN'')
                                 (js ''Standard biometric handshake complete.'') d1 of
                            (r, d2) \<Rightarrow> (r, w1\<lparr>dbService := d2\<rparr>))
                    else
                      (case logAction e normalizedId (js ''LOGIN_FAIL'')
                              (js ''Invalid passkey provided.'') d1 of
                         (Inl err, d2) \<Rightarrow> (Inl err, w\<lparr>dbService := d2\<rparr>)
                       | (Inr _, d2) \<Rightarrow>
                           (Inl IDENTITY_VERIFICATION_FAILED, w\<lparr>dbService := d2\<rparr>)))))"

definition login ::
  "host \<Rightarrow> env \<Rightarrow> jsstring \<Rightarrow> jsstring \<Rightarrow> 'p world \<Rightarrow> (error + unit) \<times> 'p world" where
  "login h e ident passkey w =
     catch_setError
       (login_try h e (toUpperCase h ident) passkey (w\<lparr>auth := (auth w)\<lparr>error := None\<rparr>\<rparr>))"

definition register_try ::
  "host \<Rightarrow> env \<Rightarrow> jsstring \<Rightarrow> jsstring \<Rightarrow> 'p world \<Rightarrow> (error + unit) \<times> 'p world" where
  "register_try h e normalizedId passkey w =
     (case getUser e normalizedId (dbService w) of
        (Inl err, d1) \<Rightarrow> (Inl err, w\<lparr>dbService := d1\<rparr>)
      | (Inr (Some existing), d1) \<Rightarrow> (Inl PROVISIONING_ERROR, w\<lparr>dbService := d1\<rparr>)
      | (Inr None, d1) \<Rightarrow>
          (case deriveHash h passkey (random_salt e) PBKDF2_ITERATIONS of
             Inl err \<Rightarrow> (Inl err, w\<lparr>dbService := d1\<rparr>)
           | Inr hash \<Rightarrow>
               (case arrayBufferToBase64 (random_salt e) of
                  Inl err \<Rightarrow> (Inl err, w\<lparr>dbService := d1\<rparr>)
                | Inr salt64 \<Rightarrow>
                    (let profile = \<lparr>user_id = normalizedId,
                                     passwordHash = hash,
                                     salt = salt64,
                                     iterations = PBKDF2_ITERATIONS\<rparr>
                     in case saveUser e profile d1 of
                          (Inl err, d2) \<Rightarrow> (Inl err, w\<lparr>dbService := d2\<rparr>)
                        | (Inr _, d2) \<Rightarrow>
                            (case logAction e normalizedId (js ''REGISTRATION'')
                                    (js ''New operator profile provisioned.'') d2 of
                               (Inl err, d3) \<Rightarrow> (Inl err, w\<lparr>dbService := d3\<rparr>)
                             | (Inr _, d3) \<Rightarrow>
                                 (Inr (),
                                  w\<lparr>auth := (auth w)\<lparr>isAuthenticated := True,
                                                        operatorId := Some normalizedId\<rparr>,
                                    localStorage := Some (new_session e normalizedId),
                                    dbService := d3\<rparr>))))))"

definition register ::
  "host \<Rightarrow> env \<Rightarrow> jsstring \<Rightarrow> jsstring \<Rightarrow> 'p world \<Rightarrow> (error + unit) \<times> 'p world" where
  "register h e ident passkey w =
     catch_setError
       (register_try h e (toUpperCase h ident) passkey (w\<lparr>auth := (auth w)\<lparr>error := None\<rparr>\<rparr>))"

section \<open>Example data\<close>

text \<open>
  A store with audit entries and investigations of two operators, two sets of host
  decisions, and a host for the examples: its \<open>toUpperCase\<close> is the one of JavaScript on
  ASCII strings, and its key derivation is a stand-in that mixes password, salt and
  iteration count into 32 bytes.
\<close>

definition demo_logs :: "AuditEntry list" where
  "demo_logs =
     [\<lparr>log_id = js ''LOG-5-bbbbb'', log_operatorId = js ''SOC-ALPHA'',
       action = js ''ANALYSIS_START'', details = js ''Target: a.png [IMAGE]'', timestamp = 5\<rparr>,
      \<lparr>log_id = js ''LOG-6-ddddd'', log_operatorId = js ''SOC-BRAVO'',
       action = js ''LOGIN'', details = js ''Standard biometric handshake complete.'',
       timestamp = 6\<rparr>,
      \<lparr>log_id = js ''LOG-9-ccccc'', log_operatorId = js ''SOC-ALPHA'',
       action = js ''LOGOUT'', details = js ''Operator terminated session.'', timestamp = 9\<rparr>,
      \<lparr>log_id = js ''LOG-5-aaaaa'', log_operatorId = js ''SOC-ALPHA'',
       action = js ''LOGIN'', details = js ''Standard biometric handshake complete.'',
       timestamp = 5\<rparr>]"

definition demo_investigations :: "unit Investigation list" where
  "demo_investigations =
     [\<lparr>inv_id = js ''k2j4h'', inv_operatorId = js ''SOC-ALPHA'', inv_timestamp = 5,
       analysis = ()\<rparr>,
      \<lparr>inv_id = js ''p0q9r'', inv_operatorId = js ''SOC-BRAVO'', inv_timestamp = 6,
       analysis = ()\<rparr>,
      \<lparr>inv_id = js ''a7b8c'', inv_operatorId = js ''SOC-ALPHA'', inv_timestamp = 8,
       analysis = ()\<rparr>]"

definition demo_service :: "unit DatabaseService" where
  "demo_service =
     \<lparr>db = False, users = [], investigations = demo_investigations, logs = demo_logs\<rparr>"

definition demo_env :: env where
  "demo_env =
     \<lparr>open_ok = True, fetch_ok = True, now_id = 12, random_suffix = js ''x7k2m'',
      now_ts = 12, now_session = 12,
      random_salt = [58, 201, 17, 94, 3, 250, 66, 129, 77, 8, 190, 35, 112, 241, 6, 153]\<rparr>"

definition demo_env_later :: env where
  "demo_env_later =
     \<lparr>open_ok = True, fetch_ok = True, now_id = 40, random_suffix = js ''q0w9e'',
      now_ts = 40, now_session = 41,
      random_salt = [9, 8, 7, 6, 5, 4, 3, 2, 1, 0, 255, 254, 253, 252, 251, 250]\<rparr>"

definition ascii_toUpperCase :: "jsstring \<Rightarrow> jsstring" where
  "ascii_toUpperCase s = map (\<lambda>c. if 97 \<le> c \<and> c \<le> 122 then c - 32 else c) s"

definition demo_pbkdf2 :: "byte list \<Rightarrow> byte list \<Rightarrow> nat \<Rightarrow> byte list" where
  "demo_pbkdf2 password saltBuffer iters =
     take 32 (map (\<lambda>b. b + of_nat iters) (password @ saltBuffer) @ replicate 32 0)"

definition demo_host :: host where
  "demo_host = \<lparr>toUpperCase = ascii_toUpperCase, pbkdf2_sha256 = demo_pbkdf2\<rparr>"

definition demo_world :: "unit world" where
  "demo_world = \<lparr>auth = initialAuth, localStorage = None, dbService = demo_service\<rparr>"

text \<open>The world after \<open>soc-alpha\<close> has registered, and the record that is stored for it.\<close>

definition demo_alpha_user :: UserProfile where
  "demo_alpha_user =
     \<lparr>user_id = js ''SOC-ALPHA'',
      passwordHash = b64_encode (demo_pbkdf2 (TextEncoder_encode (js ''Secret123!''))
                                   (random_salt demo_env) PBKDF2_ITERATIONS),
      salt = b64_encode (random_salt demo_env),
      iterations = PBKDF2_ITERATIONS\<rparr>"

definition demo_registered_world :: "unit world" where
  "demo_registered_world =
     snd (register demo_host demo_env (js ''soc-alpha'') (js ''Secret123!'') demo_world)"

text \<open>A user whose record was written when the work factor was 5000.\<close>

definition demo_legacy_user :: UserProfile where
  "demo_legacy_user =
     \<lparr>user_id = js ''SOC-BRAVO'',
      passwordHash = b64_encode (demo_pbkdf2 (TextEncoder_encode (js ''Tr0ub4dor&3''))
                                   (random_salt demo_env) 5000),
      salt = b64_encode (random_salt demo_env),
      iterations = 5000\<rparr>"

definition demo_legacy_world :: "unit world" where
  "demo_legacy_world =
     \<lparr>auth = initialAuth, localStorage = None,
      dbService = demo_service\<lparr>users := [demo_legacy_user]\<rparr>\<rparr>"

section \<open>Known values\<close>

text \<open>The host functions of the model, checked on known values.\<close>

lemma slice0_known:
  "slice0 [a, b, c] 2 = [a, b]"
  "slice0 [a, b, c] 5 = [a, b, c]"
  "slice0 [a, b, c] (- 1) = [a, b]"
  "slice0 [a, b, c] (- 5) = []"
  by (simp_all add: slice0_def)

lemma show_int_known:
  "show_int 1730000000000 = js ''1730000000000''"
  "show_int 0 = js ''0''"
  "show_int (- 305) = js ''-305''"
  by (simp_all add: show_int_def show_nat.simps js_def)

lemma b64_alphabet:
  "map b64_char [0..<64]
     = js ''ABCDEFGHIJKLMNOPQRSTUVWXYZabcdefghijklmnopqrstuvwxyz0123456789+/''"
  by code_simp

lemma btoa_known:
  "btoa (js ''Man'') = Inr (js ''TWFu'')"
  "btoa (js ''light w'') = Inr (js ''bGlnaHQgdw=='')"
  "btoa (js ''light wo'') = Inr (js ''bGlnaHQgd28='')"
  "btoa [256] = Inl InvalidCharacterError"
  by code_simp+

lemma atob_known:
  "atob (js ''TWFu'') = Inr (js ''Man'')"
  "atob (js ''bGlnaHQgdw=='') = Inr (js ''light w'')"
  "atob (js ''bGlnaHQgdw'') = Inr (js ''light w'')"
  "atob (js ''bGln aHQg d28='') = Inr (js ''light wo'')"
  "atob (js ''bGlnaHQgd'') = Inl InvalidCharacterError"
  "atob (js ''TW-u'') = Inl InvalidCharacterError"
  by (simp_all add: atob_def strip_padding_def ascii_whitespace_def b64_index_def js_def)

lemma TextEncoder_known:
  "TextEncoder_encode (js ''a'') = [97]"
  "TextEncoder_encode [233] = [195, 169]"
  "TextEncoder_encode [8364] = [226, 130, 172]"
  "TextEncoder_encode [55357, 56832] = [240, 159, 152, 128]"
  "TextEncoder_encode [56832, 55357] = [239, 191, 189, 239, 191, 189]"
  by (simp_all add: TextEncoder_encode_def utf8_bytes_def js_def)

section \<open>Store lemmas\<close>

text \<open>
  A stable sort by \<open>f\<close> of a list that is ordered by \<open>R\<close> is ordered by \<open>f\<close> first
  and by \<open>R\<close> among equal \<open>f\<close>.
\<close>

lemma insort_key_lex:
  assumes "sorted_wrt (\<lambda>a b. f a < f b \<or> (f a = f b \<and> R a b)) ys"
    and "\<forall>y\<in>set ys. R x y"
  shows "sorted_wrt (\<lambda>a b. f a < f b \<or> (f a = f b \<and> R a b)) (insort_key f x ys)"
  using assms
proof (induction ys)
  case Nil
  then show ?case by simp
next
  case (Cons y ys)
  show ?case
  proof (cases "f x \<le> f y")
    case True
    have "\<forall>z\<in>set ys. f y \<le> f z" using Cons.prems(1) by auto
    with True Cons.prems show ?thesis by (auto simp: less_le)
  next
    case False
    with Cons show ?thesis by (auto simp: set_insort_key)
  qed
qed

lemma sort_key_lex:
  "sorted_wrt R xs \<Longrightarrow>
   sorted_wrt (\<lambda>a b. f a < f b \<or> (f a = f b \<and> R a b)) (sort_key f xs)"
proof (induction xs)
  case Nil
  then show ?case by simp
next
  case (Cons x xs)
  then show ?case by (simp add: insort_key_lex)
qed

lemma fold_idb_delete:
  "fold (\<lambda>r. idb_delete key (key r)) ds rs = filter (\<lambda>x. key x \<notin> key ` set ds) rs"
  by (induction ds arbitrary: rs) (auto simp: idb_delete_def intro: filter_cong)

lemma set_getAll: "set (idb_index_getAll key idx v rs) = {x \<in> set rs. idx x = v}"
  by (auto simp: idb_index_getAll_def)

lemma length_getAll: "length (idb_index_getAll key idx v rs) = length (filter (\<lambda>x. idx x = v) rs)"
  by (simp add: idb_index_getAll_def)

lemma getAll_strict:
  assumes "distinct (map key rs)"
  shows "sorted_wrt (\<lambda>a b. key a < key b) (idb_index_getAll key idx v rs)"
proof -
  let ?xs = "idb_index_getAll key idx v rs"
  have "distinct (map key (filter (\<lambda>x. idx x = v) rs))"
    using assms by (simp add: distinct_map_filter)
  then have "distinct (map key ?xs)"
    unfolding idb_index_getAll_def by (simp add: distinct_map)
  moreover have "sorted (map key ?xs)"
    unfolding idb_index_getAll_def by simp
  ultimately have "sorted_wrt (<) (map key ?xs)"
    by (simp add: strict_sorted_iff)
  then show ?thesis by (simp add: sorted_wrt_map)
qed

lemma find_append_None: "find P xs = None \<Longrightarrow> find P (xs @ ys) = find P ys"
  by (induction xs) (simp_all split: if_splits)

lemma idb_get_put: "key r = k \<Longrightarrow> idb_get key k (idb_put key r rs) = Some r"
proof -
  assume k: "key r = k"
  have "find (\<lambda>x. key x = k) (filter (\<lambda>x. key x \<noteq> k) rs) = None"
    by (simp add: find_None_iff)
  then show ?thesis
    by (simp add: idb_get_def idb_put_def find_append_None k)
qed

text \<open>
  The primary keys of the audit log stay distinct: \<open>add\<close> never stores a second record
  under a key, and \<open>logAction\<close> is the only writer of \<open>logs\<close>.
\<close>

lemma idb_add_distinct:
  "distinct (map key rs) \<Longrightarrow> distinct (map key (idb_add key r rs))"
  by (simp add: idb_add_def)

lemma logAction_distinct:
  fixes s :: "'p DatabaseService"
  assumes "distinct (map log_id (logs s))"
  shows "distinct (map log_id (logs (snd (logAction e operator act det s))))"
  using assms
  by (auto simp: logAction_def init_def Let_def idb_add_def)

lemma init_available:
  "db s \<or> open_ok e \<Longrightarrow> init e s = (Inr (), s\<lparr>db := True\<rparr>)"
  by (auto simp: init_def)

lemma getUser_available:
  "db s \<or> open_ok e \<Longrightarrow> getUser e k s = (Inr (idb_get user_id k (users s)), s\<lparr>db := True\<rparr>)"
  by (auto simp: getUser_def init_def)

lemma getUser_unavailable:
  "\<not> db s \<Longrightarrow> \<not> open_ok e \<Longrightarrow> getUser e k s = (Inl DATABASE_INIT_FAILURE, s)"
  by (simp add: getUser_def init_def)

lemma logAction_open:
  "db s \<Longrightarrow> logAction e operator act det s
     = (Inr (), s\<lparr>logs := idb_add log_id (new_log e operator act det) (logs s)\<rparr>)"
  by (simp add: logAction_def init_def)

lemma saveUser_open:
  "db s \<Longrightarrow> saveUser e profile s = (Inr (), s\<lparr>users := idb_put user_id profile (users s)\<rparr>)"
  by (simp add: saveUser_def init_def)

lemma clear_completes:
  fixes s :: "'p DatabaseService"
  assumes "fst (clearOperatorInvestigations e operator s) = Inr ()"
  shows "(db s \<or> open_ok e) \<and> fetch_ok e"
  using assms
  by (auto simp: clearOperatorInvestigations_def getInvestigations_def init_def
      split: if_splits)

lemma slice0_length: "0 \<le> n \<Longrightarrow> int (length (slice0 xs n)) \<le> n"
  by (auto simp: slice0_def Let_def)

lemma slice0_take: "\<exists>k. slice0 xs n = take k xs"
  by (auto simp: slice0_def Let_def)

lemma getAll_order_independent:
  assumes same: "set rs' = set rs"
    and keys: "distinct (map key rs)"
    and keys': "distinct (map key rs')"
  shows "idb_index_getAll key idx v rs' = idb_index_getAll key idx v rs"
proof -
  let ?xs = "filter (\<lambda>x. idx x = v) rs"
  let ?ys = "filter (\<lambda>x. idx x = v) rs'"
  have sets: "set ?ys = set ?xs"
    using same by auto
  have dx: "distinct (map key ?xs)" and dy: "distinct (map key ?ys)"
    using keys keys' by (simp_all add: distinct_map_filter)
  have "inj_on key (set rs)"
    using keys by (simp add: distinct_map)
  then have inj: "inj_on key (set (sort_key key ?ys) \<union> set (sort_key key ?xs))"
    using sets by (auto intro: inj_on_subset)
  have "map key (sort_key key ?ys) = map key (sort_key key ?xs)"
  proof (rule sorted_distinct_set_unique)
    show "sorted (map key (sort_key key ?ys))" by simp
    show "sorted (map key (sort_key key ?xs))" by simp
    show "distinct (map key (sort_key key ?ys))"
      using dy by (simp add: distinct_map)
    show "distinct (map key (sort_key key ?xs))"
      using dx by (simp add: distinct_map)
    show "set (map key (sort_key key ?ys)) = set (map key (sort_key key ?xs))"
      using sets by simp
  qed
  then have "sort_key key ?ys = sort_key key ?xs"
    using inj by (simp add: inj_on_map_eq_map)
  then show ?thesis
    by (simp add: idb_index_getAll_def)
qed

text \<open>
  The answer of \<open>getRecentLogs\<close> depends on the entries in the log, not on the order in
  which they were written.
\<close>

lemma getRecentLogs_order_independent:
  fixes s s' :: "'p DatabaseService"
  assumes "set (logs s') = set (logs s)"
    and "distinct (map log_id (logs s))"
    and "distinct (map log_id (logs s'))"
    and "db s \<or> open_ok e"
    and "db s' \<or> open_ok e"
  shows "fst (getRecentLogs e operator limit s') = fst (getRecentLogs e operator limit s)"
  using assms(4,5)
  by (simp add: getRecentLogs_def init_available getAll_order_independent[OF assms(1-3)])

section \<open>Base64 lemmas\<close>

lemma unat_b64_char:
  "n < 64 \<Longrightarrow> unat (b64_char n) =
     (if n < 26 then 65 + n else if n < 52 then 71 + n else if n < 62 then n - 4
      else if n = 62 then 43 else 47)"
  unfolding b64_char_def
  by (simp del: of_nat_add of_nat_diff add: unat_of_nat)

lemma unat_byte_less: "unat (a :: byte) < 256"
proof -
  have "unat a < 2 ^ LENGTH(8)" by (rule unsigned_less)
  then show ?thesis by simp
qed

lemma b64_index_char: "n < 64 \<Longrightarrow> b64_index (b64_char n) = Some n"
  by (simp add: b64_index_def word_le_nat_alt unat_b64_char word_eq_iff_unsigned[where ?'a=nat])
     arith

lemma b64_char_not_pad: "n < 64 \<Longrightarrow> b64_char n \<noteq> 61"
  by (simp add: unat_b64_char word_eq_iff_unsigned[where ?'a=nat]) arith

lemma b64_char_not_space: "n < 64 \<Longrightarrow> \<not> ascii_whitespace (b64_char n)"
  by (simp add: ascii_whitespace_def unat_b64_char word_eq_iff_unsigned[where ?'a=nat]) arith

lemma b64_sextets_bound: "n \<in> set (b64_sextets bs) \<Longrightarrow> n < 64"
proof (induction bs rule: b64_sextets.induct)
  case (1 a b c rest)
  with unat_byte_less[of a] unat_byte_less[of b] unat_byte_less[of c] show ?case by auto
next
  case (2 a b)
  with unat_byte_less[of a] unat_byte_less[of b] show ?case by auto
next
  case (3 a)
  with unat_byte_less[of a] show ?case by auto
qed simp

lemma sextet_hi: "(y::nat) < 256 \<Longrightarrow> (k * 16 + y div 16) div 16 = k"
  by (simp add: div_mult2_eq[symmetric])

lemma sextet_hi_mod: "(y::nat) < 256 \<Longrightarrow> (k * 16 + y div 16) mod 16 = y div 16"
proof -
  assume "y < 256"
  then have "y div 16 < 16" by simp
  then show ?thesis by simp
qed

lemma sextet_mid: "(z::nat) < 256 \<Longrightarrow> (k * 4 + z div 64) div 4 = k"
  by (simp add: div_mult2_eq[symmetric])

lemma sextet_mid_mod: "(z::nat) < 256 \<Longrightarrow> (k * 4 + z div 64) mod 4 = z div 64"
proof -
  assume "z < 256"
  then have "z div 64 < 4" by simp
  then show ?thesis by simp
qed

lemma nat_octet_1: "(y::nat) < 256 \<Longrightarrow> x div 4 * 4 + (x mod 4 * 16 + y div 16) div 16 = x"
  by (simp only: sextet_hi div_mult_mod_eq)

lemma nat_octet_2:
  "(y::nat) < 256 \<Longrightarrow> (z::nat) < 256 \<Longrightarrow>
   (x mod 4 * 16 + y div 16) mod 16 * 16 + (y mod 16 * 4 + z div 64) div 4 = y"
  by (simp only: sextet_hi_mod sextet_mid div_mult_mod_eq)

lemma nat_octet_3:
  "(z::nat) < 256 \<Longrightarrow> (y mod 16 * 4 + z div 64) mod 4 * 64 + z mod 64 = z"
  by (simp only: sextet_mid_mod div_mult_mod_eq)

lemma octet_1:
  "(of_nat (unat a div 4 * 4 + (unat a mod 4 * 16 + unat (b::byte) div 16) div 16) :: byte) = a"
  by (simp only: nat_octet_1[OF unat_byte_less] of_nat_unat ucast_id)

lemma octet_2:
  "(of_nat ((unat (a::byte) mod 4 * 16 + unat b div 16) mod 16 * 16
      + (unat b mod 16 * 4 + unat (c::byte) div 64) div 4) :: byte) = b"
  by (simp only: nat_octet_2[OF unat_byte_less unat_byte_less] of_nat_unat ucast_id)

lemma octet_3:
  "(of_nat ((unat (b::byte) mod 16 * 4 + unat c div 64) mod 4 * 64 + unat c mod 64) :: byte) = c"
  by (simp only: nat_octet_3[OF unat_byte_less] of_nat_unat ucast_id)

lemma octet_2_last:
  "(of_nat ((unat (a::byte) mod 4 * 16 + unat b div 16) mod 16 * 16 + (unat b mod 16 * 4) div 4)
      :: byte) = b"
proof -
  have "unat b div 16 < 16"
    using unat_byte_less[of b] by simp
  then have "(unat a mod 4 * 16 + unat b div 16) mod 16 * 16 + (unat b mod 16 * 4) div 4 = unat b"
    by simp
  then show ?thesis by simp
qed

lemma octet_1_last: "(of_nat (unat a div 4 * 4 + (unat a mod 4 * 16) div 16) :: byte) = a"
proof -
  have "unat a div 4 * 4 + (unat a mod 4 * 16) div 16 = unat a"
    by simp
  then show ?thesis by simp
qed

lemma b64_octets_sextets: "b64_octets (b64_sextets bs) = bs"
proof (induction bs rule: b64_sextets.induct)
  case (1 a b c rest)
  then show ?case
    by (simp only: b64_sextets.simps b64_octets.simps append_Cons append_Nil
        octet_1 octet_2 octet_3)
next
  case (2 a b)
  show ?case
    by (simp only: b64_sextets.simps b64_octets.simps octet_1 octet_2_last)
next
  case (3 a)
  show ?case
    by (simp only: b64_sextets.simps b64_octets.simps octet_1_last)
next
  case 4
  show ?case by simp
qed

lemma those_map_index:
  "(\<And>n. n \<in> set ns \<Longrightarrow> n < 64) \<Longrightarrow> those (map (b64_index \<circ> b64_char) ns) = Some ns"
  by (induction ns) (simp_all add: b64_index_char)

lemma b64_padding_step: "b64_padding (a # b # c # rest) = b64_padding rest"
proof -
  have "length (a # b # c # rest) = length rest + 3" by simp
  then have "length (a # b # c # rest) mod 3 = length rest mod 3"
    by (simp only: mod_add_self2)
  then show ?thesis by (simp only: b64_padding_def)
qed

lemma length_b64_padded: "(length (b64_sextets bs) + b64_padding bs) mod 4 = 0"
proof (induction bs rule: b64_sextets.induct)
  case (1 a b c rest)
  have "length (b64_sextets (a # b # c # rest)) + b64_padding (a # b # c # rest)
      = (length (b64_sextets rest) + b64_padding rest) + 4"
    by (simp add: b64_padding_step)
  with 1 show ?case by (simp only: mod_add_self2)
qed (simp_all add: b64_padding_def)

lemma length_sextets_mod: "length (b64_sextets bs) mod 4 \<noteq> 1"
proof (induction bs rule: b64_sextets.induct)
  case (1 a b c rest)
  have "length (b64_sextets (a # b # c # rest)) = length (b64_sextets rest) + 4"
    by simp
  then have "length (b64_sextets (a # b # c # rest)) mod 4 = length (b64_sextets rest) mod 4"
    by (simp only: mod_add_self2)
  with 1 show ?case by simp
qed simp_all

lemma last_b64_chars:
  assumes "b64_sextets bs \<noteq> []"
  shows "last (map b64_char (b64_sextets bs)) \<noteq> 61"
proof -
  have "last (b64_sextets bs) \<in> set (b64_sextets bs)"
    using assms by (rule last_in_set)
  then have "last (b64_sextets bs) < 64"
    by (rule b64_sextets_bound)
  then show ?thesis
    using assms by (simp add: last_map b64_char_not_pad)
qed

lemma b64_sextets_Nil: "b64_sextets bs = [] \<longleftrightarrow> bs = []"
  by (cases bs rule: b64_sextets.cases) simp_all

lemma length_b64_encode: "length (b64_encode bs) mod 4 = 0"
  using length_b64_padded[of bs] by (simp add: b64_encode_def)

lemma strip_padding_encode: "strip_padding (b64_encode bs) = map b64_char (b64_sextets bs)"
proof -
  let ?xs = "map b64_char (b64_sextets bs)"
  consider "length bs mod 3 = 0" | "length bs mod 3 = 1" | "length bs mod 3 = 2"
    by linarith
  then show ?thesis
  proof cases
    case 1
    then have enc: "b64_encode bs = ?xs" by (simp add: b64_encode_def b64_padding_def)
    show ?thesis
    proof (cases "bs = []")
      case True
      then show ?thesis by (simp add: b64_encode_def b64_padding_def strip_padding_def)
    next
      case False
      then have "last ?xs \<noteq> 61" by (simp add: last_b64_chars b64_sextets_Nil)
      then show ?thesis unfolding enc by (simp add: strip_padding_def)
    qed
  next
    case 2
    then have enc: "b64_encode bs = ?xs @ [61, 61]"
      by (simp add: b64_encode_def b64_padding_def numeral_2_eq_2)
    have "length (?xs @ [61, 61]) mod 4 = 0"
      using length_b64_encode[of bs] unfolding enc .
    then show ?thesis unfolding enc by (simp add: strip_padding_def butlast_append)
  next
    case 3
    then have enc: "b64_encode bs = ?xs @ [61]"
      by (simp add: b64_encode_def b64_padding_def)
    have len: "length (?xs @ [61]) mod 4 = 0"
      using length_b64_encode[of bs] unfolding enc .
    have "bs \<noteq> []" using 3 by auto
    then have "last ?xs \<noteq> 61" by (simp add: last_b64_chars b64_sextets_Nil)
    moreover have "?xs \<noteq> []" using \<open>bs \<noteq> []\<close> by (simp add: b64_sextets_Nil)
    ultimately show ?thesis using len unfolding enc
      by (simp add: strip_padding_def butlast_append)
  qed
qed

lemma no_whitespace_encode:
  "filter (\<lambda>c. \<not> ascii_whitespace c) (b64_encode bs) = b64_encode bs"
proof -
  have "\<not> ascii_whitespace 61" by (simp add: ascii_whitespace_def)
  then show ?thesis
    by (auto simp: b64_encode_def filter_id_conv b64_char_not_space dest: b64_sextets_bound)
qed

lemma atob_encode: "atob (b64_encode bs) = Inr (map ucast bs)"
  using length_sextets_mod[of bs]
  by (simp add: atob_def no_whitespace_encode strip_padding_encode those_map_index
      b64_sextets_bound b64_octets_sextets)

lemma ucast_byte_le: "(ucast (b :: byte) :: jschar) \<le> 255"
  using unat_byte_less[of b]
  by (simp add: word_le_nat_alt unsigned_ucast_eq take_bit_nat_eq_self)

lemma ucast_ucast_byte: "(ucast (ucast (b :: byte) :: jschar) :: byte) = b"
  by (simp add: ucast_up_ucast_id is_up)

lemma arrayBufferToBase64_eq: "arrayBufferToBase64 b = Inr (b64_encode b)"
  by (simp add: arrayBufferToBase64_def btoa_def list_all_iff ucast_byte_le
      ucast_ucast_byte comp_def)

lemma base64ToArrayBuffer_encode: "base64ToArrayBuffer (b64_encode b) = Inr b"
  by (simp add: base64ToArrayBuffer_def atob_encode ucast_ucast_byte comp_def)

lemma b64_encode_inject:
  assumes "b64_encode a = b64_encode b"
  shows "a = b"
proof -
  have "(Inr a :: error + byte list) = base64ToArrayBuffer (b64_encode a)"
    by (rule base64ToArrayBuffer_encode[symmetric])
  also have "\<dots> = base64ToArrayBuffer (b64_encode b)"
    by (simp only: assms)
  also have "\<dots> = Inr b"
    by (rule base64ToArrayBuffer_encode)
  finally show ?thesis by (simp only: sum.inject)
qed

section \<open>Registration and login\<close>

lemma deriveHash_eq:
  "0 < n \<Longrightarrow> n < 2 ^ 32 \<Longrightarrow>
   deriveHash h password sb n
     = Inr (b64_encode (pbkdf2_sha256 h (TextEncoder_encode password) sb n))"
  by (simp add: deriveHash_def arrayBufferToBase64_eq)

lemma deriveHash_default:
  "deriveHash h password sb PBKDF2_ITERATIONS
     = Inr (b64_encode (pbkdf2_sha256 h (TextEncoder_encode password) sb PBKDF2_ITERATIONS))"
  by (rule deriveHash_eq) (simp_all add: PBKDF2_ITERATIONS_def)

text \<open>What \<open>register\<close> does when the identity is new.\<close>

lemma register_new:
  fixes w :: "'p world"
  assumes avail: "db (dbService w) \<or> open_ok e"
    and new: "idb_get user_id (toUpperCase h ident) (users (dbService w)) = None"
  shows "register h e ident passkey w =
     (Inr (),
      w\<lparr>auth := \<lparr>isAuthenticated = True, operatorId = Some (toUpperCase h ident), error = None\<rparr>,
        localStorage := Some (new_session e (toUpperCase h ident)),
        dbService := (dbService w)
          \<lparr>db := True,
           users := idb_put user_id
             \<lparr>user_id = toUpperCase h ident,
              passwordHash = b64_encode (pbkdf2_sha256 h (TextEncoder_encode passkey)
                                            (random_salt e) PBKDF2_ITERATIONS),
              salt = b64_encode (random_salt e),
              iterations = PBKDF2_ITERATIONS\<rparr> (users (dbService w)),
           logs := idb_add log_id
             (new_log e (toUpperCase h ident) (js ''REGISTRATION'')
                (js ''New operator profile provisioned.'')) (logs (dbService w))\<rparr>\<rparr>)"
  using new
  by (simp add: register_def register_try_def catch_setError_def getUser_available[OF avail]
      deriveHash_default arrayBufferToBase64_eq saveUser_open logAction_open)

text \<open>What \<open>login\<close> does when the identity is found and its record can be verified.\<close>

lemma login_found:
  fixes w :: "'p world"
  assumes avail: "db (dbService w) \<or> open_ok e"
    and found: "idb_get user_id (toUpperCase h ident) (users (dbService w)) = Some u"
    and sb: "base64ToArrayBuffer (salt u) = Inr sb"
    and hh: "deriveHash h passkey sb (iterations u) = Inr hh"
  shows "login h e ident passkey w =
     (if passwordHash u = hh
      then (Inr (),
            w\<lparr>auth := \<lparr>isAuthenticated = True, operatorId = Some (toUpperCase h ident),
                        error = None\<rparr>,
              localStorage := Some (new_session e (toUpperCase h ident)),
              dbService := (dbService w)
                \<lparr>db := True,
                 logs := idb_add log_id
                   (new_log e (toUpperCase h ident) (js ''LOGIN'')
                      (js ''Standard biometric handshake complete.'')) (logs (dbService w))\<rparr>\<rparr>)
      else (Inl IDENTITY_VERIFICATION_FAILED,
            w\<lparr>auth := (auth w)\<lparr>error := Some IDENTITY_VERIFICATION_FAILED\<rparr>,
              dbService := (dbService w)
                \<lparr>db := True,
                 logs := idb_add log_id
                   (new_log e (toUpperCase h ident) (js ''LOGIN_FAIL'')
                      (js ''Invalid passkey provided.'')) (logs (dbService w))\<rparr>\<rparr>))"
  using found sb hh
  by (simp add: login_def login_try_def catch_setError_def getUser_available[OF avail]
      logAction_open)

text \<open>
  After a registration, a login whose identity has the same upper case and whose passkey
  has the same UTF-8 bytes is granted, whatever the key derivation is.
\<close>

lemma login_after_register:
  fixes w :: "'p world"
  assumes avail: "db (dbService w) \<or> open_ok e1"
    and new: "idb_get user_id (toUpperCase h ident) (users (dbService w)) = None"
    and same: "toUpperCase h ident' = toUpperCase h ident"
    and bytes: "TextEncoder_encode passkey' = TextEncoder_encode passkey"
  shows "login h e2 ident' passkey' (snd (register h e1 ident passkey w)) =
     (Inr (),
      (snd (register h e1 ident passkey w))
        \<lparr>auth := \<lparr>isAuthenticated = True, operatorId = Some (toUpperCase h ident),
                    error = None\<rparr>,
          localStorage := Some (new_session e2 (toUpperCase h ident)),
          dbService := (dbService (snd (register h e1 ident passkey w)))
            \<lparr>logs := idb_add log_id
               (new_log e2 (toUpperCase h ident) (js ''LOGIN'')
                  (js ''Standard biometric handshake complete.''))
               (logs (dbService (snd (register h e1 ident passkey w))))\<rparr>\<rparr>)"
proof -
  let ?w1 = "snd (register h e1 ident passkey w)"
  let ?u = "\<lparr>user_id = toUpperCase h ident,
             passwordHash = b64_encode (pbkdf2_sha256 h (TextEncoder_encode passkey)
                                          (random_salt e1) PBKDF2_ITERATIONS),
             salt = b64_encode (random_salt e1),
             iterations = PBKDF2_ITERATIONS\<rparr>"
  have open1: "db (dbService ?w1) \<or> open_ok e2"
    by (simp add: register_new[OF avail new])
  have found: "idb_get user_id (toUpperCase h ident') (users (dbService ?w1)) = Some ?u"
    by (simp add: register_new[OF avail new] idb_get_put same)
  have sb: "base64ToArrayBuffer (salt ?u) = Inr (random_salt e1)"
    by (simp add: base64ToArrayBuffer_encode)
  have hh: "deriveHash h passkey' (random_salt e1) (iterations ?u) = Inr (passwordHash ?u)"
    by (simp add: deriveHash_default bytes)
  have run: "login h e2 ident' passkey' ?w1 =
     (Inr (),
      ?w1\<lparr>auth := \<lparr>isAuthenticated = True, operatorId = Some (toUpperCase h ident),
                    error = None\<rparr>,
          localStorage := Some (new_session e2 (toUpperCase h ident)),
          dbService := (dbService ?w1)
            \<lparr>db := True,
             logs := idb_add log_id
               (new_log e2 (toUpperCase h ident) (js ''LOGIN'')
                  (js ''Standard biometric handshake complete.''))
               (logs (dbService ?w1))\<rparr>\<rparr>)"
    by (simp add: login_found[OF open1 found sb hh] same)
  show ?thesis
    unfolding run by (simp add: register_new[OF avail new])
qed

text \<open>A login that fails inside the \<open>try\<close> block has not touched the session.\<close>

lemma login_try_failure:
  fixes w :: "'p world"
  assumes "fst (login_try h e nid passkey w) = Inl err"
  shows "auth (snd (login_try h e nid passkey w)) = auth w
       \<and> localStorage (snd (login_try h e nid passkey w)) = localStorage w"
proof (cases "db (dbService w) \<or> open_ok e")
  case True
  show ?thesis
    using assms
    by (auto simp: login_try_def getUser_available[OF True] logAction_open Let_def
        split: option.splits sum.splits if_splits)
next
  case False
  then show ?thesis
    by (simp add: login_try_def getUser_unavailable)
qed

section \<open>The examples evaluated\<close>

lemma demo_upper_lower: "toUpperCase demo_host (js ''soc-alpha'') = js ''SOC-ALPHA''"
  by (simp add: demo_host_def ascii_toUpperCase_def js_def)


lemma demo_upper_mixed: "toUpperCase demo_host (js ''Soc-Alpha'') = js ''SOC-ALPHA''"
  by (simp add: demo_host_def ascii_toUpperCase_def js_def)

lemma demo_upper_bravo: "toUpperCase demo_host (js ''soc-bravo'') = js ''SOC-BRAVO''"
  by (simp add: demo_host_def ascii_toUpperCase_def js_def)

lemma demo_world_available: "db (dbService demo_world) \<or> open_ok demo_env"
  by (simp add: demo_env_def)

lemma demo_world_no_user: "idb_get user_id k (users (dbService demo_world)) = None"
  by (simp add: demo_world_def demo_service_def idb_get_def)

lemma demo_new_log_id: "new_log_id demo_env = js ''LOG-12-x7k2m''"
  by (simp add: new_log_id_def demo_env_def show_int_def show_nat.simps js_def)

lemma demo_new_log_id_later: "new_log_id demo_env_later = js ''LOG-40-q0w9e''"
  by (simp add: new_log_id_def demo_env_later_def show_int_def show_nat.simps js_def)

lemma demo_log_ids:
  "map log_id demo_logs
     = [js ''LOG-5-bbbbb'', js ''LOG-6-ddddd'', js ''LOG-9-ccccc'', js ''LOG-5-aaaaa'']"
  by (simp add: demo_logs_def)

lemma demo_registered_world_eq:
  "demo_registered_world =
     \<lparr>auth = \<lparr>isAuthenticated = True, operatorId = Some (js ''SOC-ALPHA''), error = None\<rparr>,
      localStorage = Some (new_session demo_env (js ''SOC-ALPHA'')),
      dbService =
        \<lparr>db = True, users = [demo_alpha_user], investigations = demo_investigations,
         logs = demo_logs @
           [new_log demo_env (js ''SOC-ALPHA'') (js ''REGISTRATION'')
              (js ''New operator profile provisioned.'')]\<rparr>\<rparr>"
proof -
  have fresh: "js ''LOG-12-x7k2m'' \<notin> set (map log_id demo_logs)"
    unfolding demo_log_ids by (simp add: js_def)
  have kdf: "pbkdf2_sha256 demo_host = demo_pbkdf2"
    by (simp add: demo_host_def)
  show ?thesis
    unfolding demo_registered_world_def
      register_new[OF demo_world_available demo_world_no_user] demo_upper_lower
    using fresh
    by (simp add: demo_world_def demo_service_def idb_put_def idb_add_def new_log_def
        demo_new_log_id demo_alpha_user_def kdf initialAuth_def)
qed

lemma surrogate_bytes: "TextEncoder_encode [65533] = TextEncoder_encode [55296]"
  by (simp add: TextEncoder_encode_def)

section \<open>The claims\<close>

text \<open>
  The theorems below take the host's decisions as they come: a hypothesis says that
  the database opens or is open (\<open>db s \<or> open_ok e\<close>), or that the identifier
  \<open>new_log_id e\<close> drawn for an audit entry is not yet a key of \<open>logs\<close>.
\<close>

subsection \<open>C1: register, then login\<close>



subsection \<open>C2: the stored work factor\<close>

text \<open>
  Claim C2. For a stored user whose salt decodes and whose iteration count is one
  \<open>deriveBits\<close> accepts, \<open>login\<close> succeeds exactly when the stored hash is the hash of
  the passkey under the stored salt and the stored iteration count, and fails with
  \<open>IDENTITY_VERIFICATION_FAILED\<close> otherwise. \<open>PBKDF2_ITERATIONS\<close> plays no part: a user
  whose record carries another count logs in with the right passkey.
\<close>

theorem login_uses_stored_work_factor:
  fixes w :: "'p world"
  assumes avail: "db (dbService w) \<or> open_ok e"
    and found: "idb_get user_id (toUpperCase h ident) (users (dbService w)) = Some u"
    and sb: "base64ToArrayBuffer (salt u) = Inr sb"
    and pos: "0 < iterations u"
    and bound: "iterations u < 2 ^ 32"
  shows "(fst (login h e ident passkey w) = Inr ()) =
           (passwordHash u =
              b64_encode (pbkdf2_sha256 h (TextEncoder_encode passkey) sb (iterations u)))
       \<and> (fst (login h e ident passkey w) = Inr () \<or>
          fst (login h e ident passkey w) = Inl IDENTITY_VERIFICATION_FAILED)"
  by (simp add: login_found[OF avail found sb deriveHash_eq[OF pos bound]])

text \<open>
  A user stored with 5000 iterations logs in, although \<open>PBKDF2_ITERATIONS\<close> is 100000.
\<close>

theorem login_uses_stored_work_factor_witness:
  "(db (dbService demo_legacy_world) \<or> open_ok demo_env_later)
   \<and> idb_get user_id (toUpperCase demo_host (js ''soc-bravo''))
        (users (dbService demo_legacy_world)) = Some demo_legacy_user
   \<and> base64ToArrayBuffer (salt demo_legacy_user) = Inr (random_salt demo_env)
   \<and> 0 < iterations demo_legacy_user
   \<and> iterations demo_legacy_user < 2 ^ 32
   \<and> iterations demo_legacy_user \<noteq> PBKDF2_ITERATIONS
   \<and> fst (login demo_host demo_env_later (js ''soc-bravo'') (js ''Tr0ub4dor&3'')
            demo_legacy_world) = Inr ()"
proof -
  have avail: "db (dbService demo_legacy_world) \<or> open_ok demo_env_later"
    by (simp add: demo_env_later_def)
  have found: "idb_get user_id (toUpperCase demo_host (js ''soc-bravo''))
        (users (dbService demo_legacy_world)) = Some demo_legacy_user"
    by (simp add: demo_upper_bravo demo_legacy_world_def demo_service_def idb_get_def
        demo_legacy_user_def)
  have sb: "base64ToArrayBuffer (salt demo_legacy_user) = Inr (random_salt demo_env)"
    by (simp add: demo_legacy_user_def base64ToArrayBuffer_encode)
  have pos: "0 < iterations demo_legacy_user"
    by (simp add: demo_legacy_user_def)
  have bound: "iterations demo_legacy_user < 2 ^ 32"
    by (simp add: demo_legacy_user_def)
  have other: "iterations demo_legacy_user \<noteq> PBKDF2_ITERATIONS"
    by (simp add: demo_legacy_user_def PBKDF2_ITERATIONS_def)
  have stored: "passwordHash demo_legacy_user =
      b64_encode (pbkdf2_sha256 demo_host (TextEncoder_encode (js ''Tr0ub4dor&3''))
                    (random_salt demo_env) (iterations demo_legacy_user))"
    by (simp add: demo_legacy_user_def demo_host_def)
  from login_uses_stored_work_factor[OF avail found sb pos bound,
      of "js ''Tr0ub4dor&3''"] stored
  have "fst (login demo_host demo_env_later (js ''soc-bravo'') (js ''Tr0ub4dor&3'')
            demo_legacy_world) = Inr ()"
    by blast
  with avail found sb pos bound other show ?thesis by blast
qed

subsection \<open>C3: the recent audit entries\<close>

text \<open>What \<open>getRecentLogs\<close> returns when the store is open or opens.\<close>

lemma getRecentLogs_available:
  fixes s :: "'p DatabaseService"
  assumes avail: "db s \<or> open_ok e"
    and lim: "0 \<le> (case limit of None \<Rightarrow> 20 | Some l \<Rightarrow> l)"
    and keys: "distinct (map log_id (logs s))"
  shows "\<exists>res. getRecentLogs e operator limit s = (Inr res, s\<lparr>db := True\<rparr>)
       \<and> int (length res) \<le> (case limit of None \<Rightarrow> 20 | Some l \<Rightarrow> l)
       \<and> (\<forall>x\<in>set res. x \<in> set (logs s) \<and> log_operatorId x = operator)
       \<and> sorted_wrt (\<lambda>a b. timestamp b < timestamp a
                            \<or> (timestamp a = timestamp b \<and> log_id a < log_id b)) res
       \<and> (\<not> (\<exists>x\<in>set (logs s). log_operatorId x = operator) \<longrightarrow> res = [])"
proof -
  let ?lim = "case limit of None \<Rightarrow> 20 | Some l \<Rightarrow> l"
  let ?all = "idb_index_getAll log_id log_operatorId operator (logs s)"
  let ?sorted = "sort_key (\<lambda>a. - timestamp a) ?all"
  let ?res = "slice0 ?sorted ?lim"
  have run: "getRecentLogs e operator limit s = (Inr ?res, s\<lparr>db := True\<rparr>)"
    using avail by (simp add: getRecentLogs_def init_available)
  have len: "int (length ?res) \<le> ?lim"
    using lim by (rule slice0_length)
  obtain k where k: "?res = take k ?sorted"
    using slice0_take by blast
  have mem: "\<forall>x\<in>set ?res. x \<in> set (logs s) \<and> log_operatorId x = operator"
  proof
    fix x assume "x \<in> set ?res"
    then have "x \<in> set ?sorted" unfolding k by (rule in_set_takeD)
    then show "x \<in> set (logs s) \<and> log_operatorId x = operator"
      by (simp add: set_getAll)
  qed
  have "sorted_wrt (\<lambda>a b. - timestamp a < - timestamp b
            \<or> (- timestamp a = - timestamp b \<and> log_id a < log_id b)) ?sorted"
    using getAll_strict[OF keys] by (rule sort_key_lex)
  then have "sorted_wrt (\<lambda>a b. timestamp b < timestamp a
            \<or> (timestamp a = timestamp b \<and> log_id a < log_id b)) ?sorted"
    by (rule sorted_wrt_mono_rel[rotated]) auto
  then have ord: "sorted_wrt (\<lambda>a b. timestamp b < timestamp a
            \<or> (timestamp a = timestamp b \<and> log_id a < log_id b)) ?res"
    unfolding k by (rule sorted_wrt_take)
  have none: "\<not> (\<exists>x\<in>set (logs s). log_operatorId x = operator) \<longrightarrow> ?res = []"
  proof
    assume "\<not> (\<exists>x\<in>set (logs s). log_operatorId x = operator)"
    then have "set ?sorted = {}" by (auto simp: set_getAll)
    then have "?sorted = []" by (simp only: set_empty)
    then show "?res = []" unfolding k by simp
  qed
  from run len mem ord none show ?thesis by blast
qed

text \<open>When the store is not open and does not open, the rejection of \<open>init\<close> goes through.\<close>

lemma getRecentLogs_unavailable:
  fixes s :: "'p DatabaseService"
  assumes "\<not> (db s \<or> open_ok e)"
  shows "getRecentLogs e operator limit s = (Inl DATABASE_INIT_FAILURE, s)"
  using assms by (simp add: getRecentLogs_def init_def)

text \<open>
  Claim C3, as amended. For every operator and every limit (a count of entries, zero or
  more; 20 when it is left out): when the store is open or opens, \<open>getRecentLogs\<close>
  returns at most \<open>limit\<close> entries, all of them entries of that operator in the log, in
  descending order of timestamp, entries of equal timestamp in ascending order of their
  ids, and the empty list when the operator has no entries. It fails in one case only:
  when the store is not open and does not open, with \<open>DATABASE_INIT_FAILURE\<close>. The order
  is strict in timestamp and id together, so it leaves no choice:
  \<open>getRecentLogs_order_independent\<close> above.
\<close>

theorem recent_logs_bounded_sorted:
  fixes s :: "'p DatabaseService"
  assumes lim: "0 \<le> (case limit of None \<Rightarrow> 20 | Some l \<Rightarrow> l)"
    and keys: "distinct (map log_id (logs s))"
  shows "(db s \<or> open_ok e \<longrightarrow>
           (\<exists>res. getRecentLogs e operator limit s = (Inr res, s\<lparr>db := True\<rparr>)
              \<and> int (length res) \<le> (case limit of None \<Rightarrow> 20 | Some l \<Rightarrow> l)
              \<and> (\<forall>x\<in>set res. x \<in> set (logs s) \<and> log_operatorId x = operator)
              \<and> sorted_wrt (\<lambda>a b. timestamp b < timestamp a
                                   \<or> (timestamp a = timestamp b \<and> log_id a < log_id b)) res
              \<and> (\<not> (\<exists>x\<in>set (logs s). log_operatorId x = operator) \<longrightarrow> res = [])))
       \<and> (\<not> (db s \<or> open_ok e) \<longrightarrow>
           getRecentLogs e operator limit s = (Inl DATABASE_INIT_FAILURE, s))"
proof (intro conjI impI)
  assume "db s \<or> open_ok e"
  then show "\<exists>res. getRecentLogs e operator limit s = (Inr res, s\<lparr>db := True\<rparr>)
              \<and> int (length res) \<le> (case limit of None \<Rightarrow> 20 | Some l \<Rightarrow> l)
              \<and> (\<forall>x\<in>set res. x \<in> set (logs s) \<and> log_operatorId x = operator)
              \<and> sorted_wrt (\<lambda>a b. timestamp b < timestamp a
                                   \<or> (timestamp a = timestamp b \<and> log_id a < log_id b)) res
              \<and> (\<not> (\<exists>x\<in>set (logs s). log_operatorId x = operator) \<longrightarrow> res = [])"
    using lim keys by (rule getRecentLogs_available)
next
  assume "\<not> (db s \<or> open_ok e)"
  then show "getRecentLogs e operator limit s = (Inl DATABASE_INIT_FAILURE, s)"
    by (rule getRecentLogs_unavailable)
qed

text \<open>
  With the store opening, the two most recent entries of \<open>SOC-ALPHA\<close>; with the store
  not opening, the failure.
\<close>

theorem recent_logs_bounded_sorted_witness:
  "0 \<le> (case Some 2 of None \<Rightarrow> 20 | Some l \<Rightarrow> (l::int))
   \<and> distinct (map log_id (logs demo_service))
   \<and> (db demo_service \<or> open_ok demo_env)
   \<and> getRecentLogs demo_env (js ''SOC-ALPHA'') (Some 2) demo_service
       = (Inr [demo_logs ! 2, demo_logs ! 3], demo_service\<lparr>db := True\<rparr>)
   \<and> \<not> (db demo_service \<or> open_ok (demo_env\<lparr>open_ok := False\<rparr>))
   \<and> getRecentLogs (demo_env\<lparr>open_ok := False\<rparr>) (js ''SOC-ALPHA'') (Some 2) demo_service
       = (Inl DATABASE_INIT_FAILURE, demo_service)"
proof -
  have h1: "db demo_service \<or> open_ok demo_env"
    by (simp add: demo_env_def)
  have h2: "0 \<le> (case Some 2 of None \<Rightarrow> 20 | Some l \<Rightarrow> (l::int))"
    by simp
  have h3: "distinct (map log_id (logs demo_service))"
    by (simp add: demo_service_def demo_log_ids js_def)
  have h4: "\<not> (db demo_service \<or> open_ok (demo_env\<lparr>open_ok := False\<rparr>))"
    by (simp add: demo_service_def)
  have val: "fst (getRecentLogs demo_env (js ''SOC-ALPHA'') (Some 2) demo_service)
       = Inr [demo_logs ! 2, demo_logs ! 3]"
    by (simp add: getRecentLogs_def init_def demo_env_def demo_service_def demo_logs_def
      idb_index_getAll_def slice0_def js_def)
  from recent_logs_bounded_sorted[OF h2 h3, of demo_env "js ''SOC-ALPHA''"] h1 val
  have open_case: "getRecentLogs demo_env (js ''SOC-ALPHA'') (Some 2) demo_service
       = (Inr [demo_logs ! 2, demo_logs ! 3], demo_service\<lparr>db := True\<rparr>)"
    by auto
  from recent_logs_bounded_sorted[OF h2 h3, of "demo_env\<lparr>open_ok := False\<rparr>"
      "js ''SOC-ALPHA''"] h4
  have closed_case: "getRecentLogs (demo_env\<lparr>open_ok := False\<rparr>) (js ''SOC-ALPHA'') (Some 2)
       demo_service = (Inl DATABASE_INIT_FAILURE, demo_service)"
    by blast
  from h1 h2 h3 h4 open_case closed_case show ?thesis by blast
qed

text \<open>
  The claim as stated says that the call never fails. It awaits \<open>init\<close> first, as every
  operation of the service does, and \<open>init\<close> rejects when \<open>indexedDB.open\<close> fails: on a
  service whose connection is not yet held, with the default limit, the call rejects
  with \<open>DATABASE_INIT_FAILURE\<close>.
\<close>

theorem recent_logs_store_unavailable_counterexample:
  "\<not> db demo_service
   \<and> fst (getRecentLogs (demo_env\<lparr>open_ok := False\<rparr>) (js ''SOC-ALPHA'') None demo_service)
       = Inl DATABASE_INIT_FAILURE"
  by (simp add: getRecentLogs_def init_def demo_service_def)

subsection \<open>C4: purging an operator's investigations\<close>

text \<open>
  Claim C4. When \<open>clearOperatorInvestigations\<close> completes, \<open>getInvestigations\<close> for that
  operator returns the empty list, and the log has grown by exactly one entry: a
  \<open>BATCH_PURGE\<close> entry of that operator whose details give the number of investigations
  the operator had before the call.
\<close>

theorem purge_clears_and_logs_once:
  fixes s :: "'p DatabaseService"
  assumes completes: "fst (clearOperatorInvestigations e operator s) = Inr ()"
    and fresh: "new_log_id e \<notin> set (map log_id (logs s))"
  shows "(\<forall>e'. fetch_ok e' \<longrightarrow>
            fst (getInvestigations e' operator
                   (snd (clearOperatorInvestigations e operator s))) = Inr [])
       \<and> logs (snd (clearOperatorInvestigations e operator s)) = logs s @
           [new_log e operator (js ''BATCH_PURGE'')
              (js ''Deleted '' @
               show_nat (length (filter (\<lambda>i. inv_operatorId i = operator) (investigations s)))
               @ js '' records.'')]"
proof -
  let ?invs = "idb_index_getAll inv_id inv_operatorId operator (investigations s)"
  let ?left = "fold (\<lambda>inv. idb_delete inv_id (inv_id inv)) ?invs (investigations s)"
  have gone: "idb_index_getAll inv_id inv_operatorId operator ?left = []"
  proof -
    have "filter (\<lambda>x. inv_operatorId x = operator) ?left = []"
      by (auto simp: fold_idb_delete set_getAll filter_empty_conv)
    then show ?thesis by (simp add: idb_index_getAll_def)
  qed
  have id: "log_id (new_log e operator a d) = new_log_id e" for a d
    by (simp add: new_log_def)
  from clear_completes[OF completes] have avail: "db s \<or> open_ok e" and fetch: "fetch_ok e"
    by simp_all
  show ?thesis
    using avail fetch fresh gone
    by (auto simp: clearOperatorInvestigations_def getInvestigations_def logAction_def
        init_def idb_add_def length_getAll Let_def id)
qed

theorem purge_clears_and_logs_once_witness:
  "fst (clearOperatorInvestigations demo_env (js ''SOC-ALPHA'') demo_service) = Inr ()
   \<and> new_log_id demo_env \<notin> set (map log_id (logs demo_service))
   \<and> fst (getInvestigations demo_env (js ''SOC-ALPHA'')
            (snd (clearOperatorInvestigations demo_env (js ''SOC-ALPHA'') demo_service))) = Inr []
   \<and> logs (snd (clearOperatorInvestigations demo_env (js ''SOC-ALPHA'') demo_service))
       = demo_logs @
         [\<lparr>log_id = js ''LOG-12-x7k2m'', log_operatorId = js ''SOC-ALPHA'',
           action = js ''BATCH_PURGE'', details = js ''Deleted 2 records.'', timestamp = 12\<rparr>]"
proof -
  have h1: "fst (clearOperatorInvestigations demo_env (js ''SOC-ALPHA'') demo_service) = Inr ()"
    by (simp add: clearOperatorInvestigations_def getInvestigations_def init_def Let_def
        demo_env_def demo_service_def)
  have h2: "fetch_ok demo_env"
    by (simp add: demo_env_def)
  have h3: "new_log_id demo_env \<notin> set (map log_id (logs demo_service))"
    unfolding demo_new_log_id by (simp add: demo_service_def demo_log_ids js_def)
  have n: "js ''Deleted '' @ show_nat (length (filter (\<lambda>i. inv_operatorId i = js ''SOC-ALPHA'')
             (investigations demo_service))) @ js '' records.'' = js ''Deleted 2 records.''"
    by (simp add: demo_service_def demo_investigations_def show_nat.simps js_def)
  have entry: "new_log demo_env (js ''SOC-ALPHA'') (js ''BATCH_PURGE'') (js ''Deleted 2 records.'')
      = \<lparr>log_id = js ''LOG-12-x7k2m'', log_operatorId = js ''SOC-ALPHA'',
           action = js ''BATCH_PURGE'', details = js ''Deleted 2 records.'', timestamp = 12\<rparr>"
    by (simp add: new_log_def demo_new_log_id) (simp add: demo_env_def)
  from purge_clears_and_logs_once[OF h1 h3] h1 h2 h3
  show ?thesis
    unfolding n entry by (auto simp: demo_service_def)
qed

subsection \<open>C5: registering an identity twice\<close>

text \<open>
  Claim C5. When a user is stored under the upper-cased identity, \<open>register\<close> fails with
  \<open>PROVISIONING_ERROR\<close> and the user store is what it was.
\<close>

theorem register_duplicate_rejected:
  fixes w :: "'p world"
  assumes avail: "db (dbService w) \<or> open_ok e"
    and found: "idb_get user_id (toUpperCase h ident) (users (dbService w)) = Some u"
  shows "fst (register h e ident passkey w) = Inl PROVISIONING_ERROR
       \<and> users (dbService (snd (register h e ident passkey w))) = users (dbService w)"
  using found
  by (simp add: register_def register_try_def catch_setError_def getUser_available[OF avail])

text \<open>
  After \<open>soc-alpha\<close> has registered, registering \<open>Soc-Alpha\<close> is refused.
\<close>

theorem register_duplicate_rejected_witness:
  "(db (dbService demo_registered_world) \<or> open_ok demo_env_later)
   \<and> idb_get user_id (toUpperCase demo_host (js ''Soc-Alpha''))
        (users (dbService demo_registered_world)) = Some demo_alpha_user
   \<and> fst (register demo_host demo_env_later (js ''Soc-Alpha'') (js ''hunter2'')
            demo_registered_world) = Inl PROVISIONING_ERROR
   \<and> users (dbService (snd (register demo_host demo_env_later (js ''Soc-Alpha'') (js ''hunter2'')
            demo_registered_world))) = [demo_alpha_user]"
proof -
  have avail: "db (dbService demo_registered_world) \<or> open_ok demo_env_later"
    by (simp add: demo_registered_world_eq)
  have found: "idb_get user_id (toUpperCase demo_host (js ''Soc-Alpha''))
        (users (dbService demo_registered_world)) = Some demo_alpha_user"
    by (simp add: demo_upper_mixed demo_registered_world_eq idb_get_def demo_alpha_user_def)
  have users: "users (dbService demo_registered_world) = [demo_alpha_user]"
    by (simp add: demo_registered_world_eq)
  from register_duplicate_rejected[OF avail found, of "js ''hunter2''"] avail found
  show ?thesis by (simp add: users)
qed

subsection \<open>C6: a wrong passkey\<close>

text \<open>
  Claim C6, as amended. For a stored user and a passkey whose derived hash, under the
  stored salt and the stored iteration count, is not the stored hash, \<open>login\<close> fails
  with \<open>IDENTITY_VERIFICATION_FAILED\<close>, appends exactly one \<open>LOGIN_FAIL\<close> entry and
  leaves \<open>isAuthenticated\<close>, \<open>operatorId\<close> and the session marker as they were.
\<close>

theorem wrong_hash_login_rejected:
  fixes w :: "'p world"
  assumes avail: "db (dbService w) \<or> open_ok e"
    and found: "idb_get user_id (toUpperCase h ident) (users (dbService w)) = Some u"
    and sb: "base64ToArrayBuffer (salt u) = Inr sb"
    and hh: "deriveHash h passkey sb (iterations u) = Inr hh"
    and wrong: "hh \<noteq> passwordHash u"
    and fresh: "new_log_id e \<notin> set (map log_id (logs (dbService w)))"
  shows "fst (login h e ident passkey w) = Inl IDENTITY_VERIFICATION_FAILED
       \<and> logs (dbService (snd (login h e ident passkey w)))
           = logs (dbService w) @
             [new_log e (toUpperCase h ident) (js ''LOGIN_FAIL'') (js ''Invalid passkey provided.'')]
       \<and> isAuthenticated (auth (snd (login h e ident passkey w))) = isAuthenticated (auth w)
       \<and> operatorId (auth (snd (login h e ident passkey w))) = operatorId (auth w)
       \<and> localStorage (snd (login h e ident passkey w)) = localStorage w"
proof -
  have "log_id (new_log e (toUpperCase h ident) (js ''LOGIN_FAIL'')
          (js ''Invalid passkey provided.'')) \<notin> set (map log_id (logs (dbService w)))"
    using fresh by (simp add: new_log_def)
  then show ?thesis
    using wrong by (simp add: login_found[OF avail found sb hh] idb_add_def)
qed

text \<open>
  After \<open>soc-alpha\<close> has registered with \<open>Secret123!\<close>, a login with \<open>secret123!\<close>
  is refused.
\<close>

theorem wrong_hash_login_rejected_witness:
  "(db (dbService demo_registered_world) \<or> open_ok demo_env_later)
   \<and> idb_get user_id (toUpperCase demo_host (js ''soc-alpha''))
        (users (dbService demo_registered_world)) = Some demo_alpha_user
   \<and> base64ToArrayBuffer (salt demo_alpha_user) = Inr (random_salt demo_env)
   \<and> deriveHash demo_host (js ''secret123!'') (random_salt demo_env) (iterations demo_alpha_user)
       = Inr (b64_encode (demo_pbkdf2 (TextEncoder_encode (js ''secret123!''))
                            (random_salt demo_env) PBKDF2_ITERATIONS))
   \<and> b64_encode (demo_pbkdf2 (TextEncoder_encode (js ''secret123!''))
                            (random_salt demo_env) PBKDF2_ITERATIONS)
       \<noteq> passwordHash demo_alpha_user
   \<and> new_log_id demo_env_later \<notin> set (map log_id (logs (dbService demo_registered_world)))
   \<and> fst (login demo_host demo_env_later (js ''soc-alpha'') (js ''secret123!'')
            demo_registered_world) = Inl IDENTITY_VERIFICATION_FAILED
   \<and> logs (dbService (snd (login demo_host demo_env_later (js ''soc-alpha'') (js ''secret123!'')
            demo_registered_world)))
       = logs (dbService demo_registered_world) @
           [new_log demo_env_later (js ''SOC-ALPHA'') (js ''LOGIN_FAIL'')
              (js ''Invalid passkey provided.'')]"
proof -
  have avail: "db (dbService demo_registered_world) \<or> open_ok demo_env_later"
    by (simp add: demo_registered_world_eq)
  have found: "idb_get user_id (toUpperCase demo_host (js ''soc-alpha''))
        (users (dbService demo_registered_world)) = Some demo_alpha_user"
    by (simp add: demo_upper_lower demo_registered_world_eq idb_get_def demo_alpha_user_def)
  have sb: "base64ToArrayBuffer (salt demo_alpha_user) = Inr (random_salt demo_env)"
    by (simp add: demo_alpha_user_def base64ToArrayBuffer_encode)
  have hh: "deriveHash demo_host (js ''secret123!'') (random_salt demo_env)
              (iterations demo_alpha_user)
       = Inr (b64_encode (demo_pbkdf2 (TextEncoder_encode (js ''secret123!''))
                            (random_salt demo_env) PBKDF2_ITERATIONS))"
    by (simp add: demo_alpha_user_def deriveHash_default demo_host_def)
  have "demo_pbkdf2 (TextEncoder_encode (js ''secret123!'')) (random_salt demo_env)
          PBKDF2_ITERATIONS
      \<noteq> demo_pbkdf2 (TextEncoder_encode (js ''Secret123!'')) (random_salt demo_env)
          PBKDF2_ITERATIONS"
    by (simp add: demo_pbkdf2_def TextEncoder_encode_def js_def utf8_bytes_def)
  then have wrong: "b64_encode (demo_pbkdf2 (TextEncoder_encode (js ''secret123!''))
                            (random_salt demo_env) PBKDF2_ITERATIONS)
       \<noteq> passwordHash demo_alpha_user"
    by (auto simp: demo_alpha_user_def dest: b64_encode_inject)
  have fresh: "new_log_id demo_env_later
      \<notin> set (map log_id (logs (dbService demo_registered_world)))"
    unfolding demo_new_log_id_later
    by (simp add: demo_registered_world_eq demo_log_ids new_log_def demo_new_log_id js_def)
  from wrong_hash_login_rejected[OF avail found sb hh wrong fresh]
    avail found sb hh wrong fresh
  show ?thesis by (simp add: demo_upper_lower)
qed

text \<open>
  The claim as stated, for every passkey other than the registered one, fails: the
  passkey is hashed through its UTF-8 bytes, and \<open>TextEncoder\<close> writes a lone surrogate
  as U+FFFD. A user registered with the one-unit passkey U+D800 (55296) logs in with the
  one-unit passkey U+FFFD (65533). The key derivation plays no part in it
  (\<open>login_after_register\<close> holds for every host).
\<close>

theorem wrong_passkey_accepted_counterexample:
  "[65533] \<noteq> [55296 :: jschar]
   \<and> fst (register demo_host demo_env (js ''soc-alpha'') [55296] demo_world) = Inr ()
   \<and> fst (login demo_host demo_env_later (js ''soc-alpha'') [65533]
            (snd (register demo_host demo_env (js ''soc-alpha'') [55296] demo_world))) = Inr ()"
proof -
  have differ: "[65533] \<noteq> [55296 :: jschar]"
    by simp
  have reg: "fst (register demo_host demo_env (js ''soc-alpha'') [55296] demo_world) = Inr ()"
    by (simp add: register_new[OF demo_world_available demo_world_no_user])
  have "fst (login demo_host demo_env_later (js ''soc-alpha'') [65533]
            (snd (register demo_host demo_env (js ''soc-alpha'') [55296] demo_world))) = Inr ()"
    by (simp only: fst_conv
        login_after_register[OF demo_world_available demo_world_no_user refl surrogate_bytes])
  with differ reg show ?thesis by blast
qed

subsection \<open>C7: restoring the session\<close>

text \<open>
  Claim C7. At startup, with a session marker in storage: when its expiry is not after
  the current time, the restore step leaves no active session and removes the marker;
  when its expiry is after the current time, the session is active for the marker's
  operator and the marker stays.
\<close>

theorem restore_session_expiry:
  fixes w :: "'p world"
  assumes start: "auth w = initialAuth"
    and saved: "localStorage w = Some m"
  shows "(expiry m \<le> now \<longrightarrow>
            \<not> isAuthenticated (auth (restoreSession now w))
          \<and> operatorId (auth (restoreSession now w)) = None
          \<and> localStorage (restoreSession now w) = None)
       \<and> (now < expiry m \<longrightarrow>
            isAuthenticated (auth (restoreSession now w))
          \<and> operatorId (auth (restoreSession now w)) = Some (session_id m)
          \<and> localStorage (restoreSession now w) = Some m)"
  using start saved by (simp add: restoreSession_def initialAuth_def)

theorem restore_session_expiry_witness:
  "auth (demo_world\<lparr>localStorage := Some \<lparr>session_id = js ''SOC-ALPHA'', expiry = 100\<rparr>\<rparr>)
     = initialAuth
   \<and> expiry \<lparr>session_id = js ''SOC-ALPHA'', expiry = 100\<rparr> \<le> 100
   \<and> 99 < expiry \<lparr>session_id = js ''SOC-ALPHA'', expiry = 100\<rparr>
   \<and> \<not> isAuthenticated (auth (restoreSession 100
         (demo_world\<lparr>localStorage := Some \<lparr>session_id = js ''SOC-ALPHA'', expiry = 100\<rparr>\<rparr>)))
   \<and> localStorage (restoreSession 100
         (demo_world\<lparr>localStorage := Some \<lparr>session_id = js ''SOC-ALPHA'', expiry = 100\<rparr>\<rparr>))
       = None
   \<and> isAuthenticated (auth (restoreSession 99
         (demo_world\<lparr>localStorage := Some \<lparr>session_id = js ''SOC-ALPHA'', expiry = 100\<rparr>\<rparr>)))
   \<and> operatorId (auth (restoreSession 99
         (demo_world\<lparr>localStorage := Some \<lparr>session_id = js ''SOC-ALPHA'', expiry = 100\<rparr>\<rparr>)))
       = Some (js ''SOC-ALPHA'')"
proof -
  let ?m = "\<lparr>session_id = js ''SOC-ALPHA'', expiry = 100\<rparr>"
  let ?w = "demo_world\<lparr>localStorage := Some ?m\<rparr>"
  have start: "auth ?w = initialAuth"
    by (simp add: demo_world_def)
  have saved: "localStorage ?w = Some ?m"
    by simp
  from restore_session_expiry[OF start saved, of 100]
    restore_session_expiry[OF start saved, of 99] start
  show ?thesis by simp
qed

subsection \<open>C9: base64 and back\<close>

text \<open>
  Claim C9. For every byte buffer \<open>b\<close>, \<open>arrayBufferToBase64 b\<close> returns a string, and
  \<open>base64ToArrayBuffer\<close> of that string returns \<open>b\<close>.
\<close>

theorem base64_roundtrip:
  "arrayBufferToBase64 b = Inr (b64_encode b)
   \<and> base64ToArrayBuffer (b64_encode b) = Inr b
   \<and> (case arrayBufferToBase64 b of
        Inl err \<Rightarrow> Inl err
      | Inr base64 \<Rightarrow> base64ToArrayBuffer base64) = Inr b"
  by (simp add: arrayBufferToBase64_eq base64ToArrayBuffer_encode)

subsection \<open>C10: a failed login\<close>

text \<open>
  Claim C10. A \<open>login\<close> that fails, for whatever reason, leaves \<open>isAuthenticated\<close>,
  \<open>operatorId\<close> and the session marker in storage as they were, and records its error.
\<close>

theorem failed_login_keeps_session_state:
  fixes w :: "'p world"
  assumes failed: "fst (login h e ident passkey w) = Inl err"
  shows "isAuthenticated (auth (snd (login h e ident passkey w))) = isAuthenticated (auth w)
       \<and> operatorId (auth (snd (login h e ident passkey w))) = operatorId (auth w)
       \<and> localStorage (snd (login h e ident passkey w)) = localStorage w
       \<and> error (auth (snd (login h e ident passkey w))) = Some err"
proof -
  let ?w0 = "w\<lparr>auth := (auth w)\<lparr>error := None\<rparr>\<rparr>"
  let ?r = "login_try h e (toUpperCase h ident) passkey ?w0"
  have run: "login h e ident passkey w = catch_setError ?r"
    by (simp add: login_def)
  obtain r w1 where r: "?r = (r, w1)" by (cases ?r)
  have "r = Inl err"
    using failed unfolding run r by (cases r) (simp_all add: catch_setError_def)
  then have "fst ?r = Inl err" by (simp add: r)
  then have "auth (snd ?r) = auth ?w0 \<and> localStorage (snd ?r) = localStorage ?w0"
    by (rule login_try_failure)
  then show ?thesis
    unfolding run r using \<open>r = Inl err\<close> by (simp add: catch_setError_def)
qed

text \<open>
  An unknown identity is refused, and the visitor is as unauthenticated as before.
\<close>

theorem failed_login_keeps_session_state_witness:
  "fst (login demo_host demo_env (js ''ghost'') (js ''Secret123!'') demo_world) = Inl ACCESS_DENIED
   \<and> \<not> isAuthenticated (auth (snd (login demo_host demo_env (js ''ghost'') (js ''Secret123!'')
                                       demo_world)))
   \<and> operatorId (auth (snd (login demo_host demo_env (js ''ghost'') (js ''Secret123!'')
                                demo_world))) = None
   \<and> localStorage (snd (login demo_host demo_env (js ''ghost'') (js ''Secret123!'') demo_world))
       = None"
proof -
  have failed: "fst (login demo_host demo_env (js ''ghost'') (js ''Secret123!'') demo_world)
      = Inl ACCESS_DENIED"
    by (simp add: login_def login_try_def catch_setError_def
        getUser_available[OF demo_world_available] demo_world_no_user)
  from failed_login_keeps_session_state[OF failed] failed
  show ?thesis by (simp add: demo_world_def initialAuth_def)
qed

end
